theory Spec2Isabelle
  imports Main "HOL-Library.Word"
begin

unbundle bit_operations_syntax

section \<open>The arena: bytes, 32-bit slots and faults\<close>

text \<open>
  The pipe of \<^verbatim>\<open>tinypipe.c\<close> keeps its frames in one block of bytes obtained from
  \<^verbatim>\<open>malloc\<close>. The three pointers of the struct (\<^verbatim>\<open>buffer\<close>, \<^verbatim>\<open>writeHead\<close>,
  \<^verbatim>\<open>readHead\<close>) always point into that block, so the model keeps the block's contents
  in the field \<open>buffer\<close> and the two heads as byte offsets from its start (the pointer
  \<^verbatim>\<open>q->buffer\<close> is offset 0). Offsets are unbounded integers: pointer arithmetic is
  done on addresses, not on 32-bit values. The C \<^verbatim>\<open>int\<close> and \<^verbatim>\<open>int32_t\<close> values are
  32-bit words read as two's complement (\<open>sint\<close>); their arithmetic wraps around.

  An access outside the block is undefined behaviour in C; here it is the fault
  \<open>OutOfBounds\<close>. A failed \<^verbatim>\<open>assert\<close> is the fault \<open>AssertionFailure\<close>.
  The memory fence \<^verbatim>\<open>hv_sfence()\<close> has no effect on a single thread of control and
  is not modelled; the order of the stores around it is kept.
\<close>

type_synonym byte = "8 word"
type_synonym int32 = "32 word"

datatype fault = AssertionFailure | OutOfBounds

record TinyPipe =
  buffer :: "byte list"
  writeHead :: int
  readHead :: int
  len :: int32
  remainingBytes :: int32

definition HLP_STOP :: int32 where
  "HLP_STOP = 0"

definition HLP_LOOP :: int32 where
  "HLP_LOOP = - 1"

text \<open>
  A 32-bit value occupies four consecutive bytes in native byte order; the model fixes
  little-endian order (the order of the x86 and ARM targets the fence selection of the
  source names).
\<close>

definition int32_bytes :: "int32 \<Rightarrow> byte list" where
  "int32_bytes x = [ucast x, ucast (drop_bit 8 x), ucast (drop_bit 16 x), ucast (drop_bit 24 x)]"

definition bytes_int32 :: "byte list \<Rightarrow> int32" where
  "bytes_int32 bs = foldr (\<lambda>b acc. ucast b OR push_bit 8 acc) bs 0"

definition in_arena :: "byte list \<Rightarrow> int \<Rightarrow> nat \<Rightarrow> bool" where
  "in_arena m p n = (0 \<le> p \<and> p + int n \<le> int (length m))"

text \<open>\<^verbatim>\<open>#define TPIPE_GET_INT32_AT_BUFFER(a) (*((int32_t *) (a)))\<close>\<close>

definition TPIPE_GET_INT32_AT_BUFFER :: "byte list \<Rightarrow> int \<Rightarrow> fault + int32" where
  "TPIPE_GET_INT32_AT_BUFFER m a =
     (if in_arena m a 4 then Inr (bytes_int32 (take 4 (drop (nat a) m)))
      else Inl OutOfBounds)"

text \<open>\<^verbatim>\<open>#define TPIPE_SET_INT32_AT_BUFFER(a, b) (*((int32_t *) (a)) = (b))\<close>\<close>

definition TPIPE_SET_INT32_AT_BUFFER :: "byte list \<Rightarrow> int \<Rightarrow> int32 \<Rightarrow> fault + byte list" where
  "TPIPE_SET_INT32_AT_BUFFER m a b =
     (if in_arena m a 4 then Inr (take (nat a) m @ int32_bytes b @ drop (nat a + 4) m)
      else Inl OutOfBounds)"

text \<open>
  \<^verbatim>\<open>memcpy(dst, src, n)\<close> into the arena at offset \<open>dst\<close>, from the caller's bytes
  \<open>src\<close>. The count is converted to \<^verbatim>\<open>size_t\<close>: a negative \<^verbatim>\<open>int\<close> becomes a count
  larger than any block.
\<close>

definition memcpy :: "byte list \<Rightarrow> int \<Rightarrow> byte list \<Rightarrow> int32 \<Rightarrow> fault + byte list" where
  "memcpy m dst src n =
     (if 0 \<le> sint n \<and> in_arena m dst (nat (sint n)) \<and> nat (sint n) \<le> length src
      then Inr (take (nat dst) m @ take (nat (sint n)) src @ drop (nat dst + nat (sint n)) m)
      else Inl OutOfBounds)"

text \<open>\<^verbatim>\<open>memset(q->buffer, 0, n)\<close>, from the start of the arena.\<close>

definition memset :: "byte list \<Rightarrow> int32 \<Rightarrow> fault + byte list" where
  "memset m n =
     (if 0 \<le> sint n \<and> nat (sint n) \<le> length m
      then Inr (replicate (nat (sint n)) 0 @ drop (nat (sint n)) m)
      else Inl OutOfBounds)"

section \<open>The operations of \<^verbatim>\<open>tinypipe.c\<close>\<close>

text \<open>
  \<^verbatim>\<open>tpipe_init\<close>. The block returned by \<^verbatim>\<open>malloc\<close> is a parameter: \<open>None\<close> when the
  allocation fails, \<open>Some g\<close> for a block whose byte \<open>i\<close> holds the indeterminate value
  \<open>g i\<close>.
\<close>

definition tpipe_init :: "(nat \<Rightarrow> byte) option \<Rightarrow> int32 \<Rightarrow> fault + (int32 \<times> TinyPipe)" where
  "tpipe_init heap numBytes =
     (if 0 < sint numBytes then
        (case heap of
           None \<Rightarrow> Inl AssertionFailure
         | Some g \<Rightarrow>
             (case TPIPE_SET_INT32_AT_BUFFER (map g [0..<nat (sint numBytes)]) 0 HLP_STOP of
                Inl e \<Rightarrow> Inl e
              | Inr m \<Rightarrow>
                  Inr (numBytes,
                       \<lparr>buffer = m, writeHead = 0, readHead = 0,
                        len = numBytes, remainingBytes = numBytes\<rparr>)))
      else Inl AssertionFailure)"

text \<open>\<^verbatim>\<open>tpipe_hasData\<close>: the value returned and the pipe, whose read head may have moved.\<close>

definition tpipe_hasData :: "TinyPipe \<Rightarrow> fault + (int32 \<times> TinyPipe)" where
  "tpipe_hasData q =
     (case TPIPE_GET_INT32_AT_BUFFER (buffer q) (readHead q) of
        Inl e \<Rightarrow> Inl e
      | Inr x \<Rightarrow>
          if x = HLP_LOOP then
            (let q' = q\<lparr>readHead := 0\<rparr> in
             case TPIPE_GET_INT32_AT_BUFFER (buffer q') (readHead q') of
               Inl e \<Rightarrow> Inl e
             | Inr x' \<Rightarrow> Inr (x', q'))
          else Inr (x, q))"

text \<open>
  \<^verbatim>\<open>tpipe_getWriteBuffer\<close>: the pointer returned (\<open>None\<close> is \<^verbatim>\<open>NULL\<close>, \<open>Some p\<close> the
  offset \<open>p\<close>) and the pipe. \<^verbatim>\<open>bytesToWrite + 2 * sizeof(int32_t)\<close> is computed in
  \<^verbatim>\<open>size_t\<close> and stored in an \<^verbatim>\<open>int\<close>, which is addition modulo \<open>2 ^ 32\<close>.
\<close>

definition tpipe_getWriteBuffer :: "TinyPipe \<Rightarrow> int32 \<Rightarrow> fault + (int option \<times> TinyPipe)" where
  "tpipe_getWriteBuffer q bytesToWrite =
     (let rdHead = readHead q;
          oldWriteHead = writeHead q;
          totalByteRequirement = bytesToWrite + 8
      in
      if sint totalByteRequirement \<le> sint (remainingBytes q) then
        (let newWriteHead = oldWriteHead + 4 + sint bytesToWrite in
         if oldWriteHead < rdHead \<and> newWriteHead \<ge> rdHead then Inr (None, q)
         else Inr (Some (oldWriteHead + 4), q))
      else if sint totalByteRequirement \<le> sint (len q) then
        (if oldWriteHead < rdHead \<or> 0 + sint totalByteRequirement > rdHead then Inr (None, q)
         else
           (case TPIPE_SET_INT32_AT_BUFFER (buffer q) 0 HLP_STOP of
              Inl e \<Rightarrow> Inl e
            | Inr m1 \<Rightarrow>
                (case TPIPE_SET_INT32_AT_BUFFER m1 oldWriteHead HLP_LOOP of
                   Inl e \<Rightarrow> Inl e
                 | Inr m2 \<Rightarrow>
                     Inr (Some (0 + 4),
                          q\<lparr>writeHead := 0, remainingBytes := len q, buffer := m2\<rparr>))))
      else Inr (None, q))"

text \<open>
  \<^verbatim>\<open>tpipe_produce\<close>. The sum in the assertion is an \<^verbatim>\<open>int\<close> sum and wraps around;
  the head moves by \<^verbatim>\<open>sizeof(int32_t) + numBytes\<close> on addresses.
\<close>

definition tpipe_produce :: "TinyPipe \<Rightarrow> int32 \<Rightarrow> fault + TinyPipe" where
  "tpipe_produce q numBytes =
     (if sint (remainingBytes q) \<ge> sint (numBytes + 8) then
        (let q1 = q\<lparr>remainingBytes := remainingBytes q - (4 + numBytes)\<rparr>;
             oldWriteHead = writeHead q1;
             q2 = q1\<lparr>writeHead := writeHead q1 + (4 + sint numBytes)\<rparr>
         in
         case TPIPE_SET_INT32_AT_BUFFER (buffer q2) (writeHead q2) HLP_STOP of
           Inl e \<Rightarrow> Inl e
         | Inr m1 \<Rightarrow>
             (case TPIPE_SET_INT32_AT_BUFFER m1 oldWriteHead numBytes of
                Inl e \<Rightarrow> Inl e
              | Inr m2 \<Rightarrow> Inr (q2\<lparr>buffer := m2\<rparr>)))
      else Inl AssertionFailure)"

text \<open>\<^verbatim>\<open>tpipe_getReadBuffer\<close>: the pointer returned and the value stored in \<^verbatim>\<open>*numBytes\<close>.\<close>

definition tpipe_getReadBuffer :: "TinyPipe \<Rightarrow> fault + (int \<times> int32)" where
  "tpipe_getReadBuffer q =
     (case TPIPE_GET_INT32_AT_BUFFER (buffer q) (readHead q) of
        Inl e \<Rightarrow> Inl e
      | Inr numBytes \<Rightarrow> Inr (readHead q + 4, numBytes))"

definition tpipe_consume :: "TinyPipe \<Rightarrow> fault + TinyPipe" where
  "tpipe_consume q =
     (case TPIPE_GET_INT32_AT_BUFFER (buffer q) (readHead q) of
        Inl e \<Rightarrow> Inl e
      | Inr x \<Rightarrow>
          if x = HLP_STOP then Inl AssertionFailure
          else Inr (q\<lparr>readHead := readHead q + (4 + sint x)\<rparr>))"

definition tpipe_clear :: "TinyPipe \<Rightarrow> fault + TinyPipe" where
  "tpipe_clear q =
     (let q1 = q\<lparr>writeHead := 0, readHead := 0, remainingBytes := len q\<rparr> in
      case memset (buffer q1) (len q1) of
        Inl e \<Rightarrow> Inl e
      | Inr m \<Rightarrow> Inr (q1\<lparr>buffer := m\<rparr>))"

text \<open>
  The loop of \<^verbatim>\<open>tpipe_getTotalData\<close>, with its variables \<^verbatim>\<open>p\<close> and \<^verbatim>\<open>len\<close> as
  arguments. The loop need not end (a \<open>LOOP\<close> marker at the start of the arena sends it
  round for ever): \<open>None\<close> is the run that never returns.
\<close>

partial_function (option) getTotalData_loop :: "TinyPipe \<Rightarrow> int \<Rightarrow> int32 \<Rightarrow> (fault + int32) option" where
  "getTotalData_loop q p l =
     (case TPIPE_GET_INT32_AT_BUFFER (buffer q) p of
        Inl e \<Rightarrow> Some (Inl e)
      | Inr d \<Rightarrow>
          if d = HLP_STOP then Some (Inr l)
          else if d = HLP_LOOP then getTotalData_loop q 0 l
          else getTotalData_loop q (p + (4 + sint d)) (l + d))"

declare getTotalData_loop.simps [code]

definition tpipe_getTotalData :: "TinyPipe \<Rightarrow> (fault + int32) option" where
  "tpipe_getTotalData q = getTotalData_loop q (readHead q) 0"

text \<open>\<^verbatim>\<open>tpipe_write\<close>: \<open>data\<close> is the block the caller's pointer refers to.\<close>

definition tpipe_write :: "TinyPipe \<Rightarrow> byte list \<Rightarrow> int32 \<Rightarrow> fault + (int32 \<times> TinyPipe)" where
  "tpipe_write q data numBytes =
     (case tpipe_getWriteBuffer q numBytes of
        Inl e \<Rightarrow> Inl e
      | Inr (None, q1) \<Rightarrow> Inr (0, q1)
      | Inr (Some buf, q1) \<Rightarrow>
          (case memcpy (buffer q1) buf data numBytes of
             Inl e \<Rightarrow> Inl e
           | Inr m \<Rightarrow>
               (case tpipe_produce (q1\<lparr>buffer := m\<rparr>) numBytes of
                  Inl e \<Rightarrow> Inl e
                | Inr q2 \<Rightarrow> Inr (1, q2))))"

section \<open>Well-formed pipes and payload sizes\<close>

text \<open>
  What \<^verbatim>\<open>tpipe_init\<close> sets up and every later call keeps: the arena is \<^verbatim>\<open>len\<close> bytes
  long and has room for one 32-bit slot.
\<close>

definition arena_ok :: "TinyPipe \<Rightarrow> bool" where
  "arena_ok q = (length (buffer q) = nat (sint (len q)) \<and> 4 \<le> sint (len q))"

text \<open>
  The producer's bookkeeping, as the comment on the field says
  (\<^verbatim>\<open>remainingBytes; // total bytes from write head to end\<close>): the write head lies in the
  arena, \<^verbatim>\<open>remainingBytes\<close> is its distance to the arena's end, and one slot is always
  left for the marker that closes the last frame.
\<close>

definition pipe_inv :: "TinyPipe \<Rightarrow> bool" where
  "pipe_inv q =
     (length (buffer q) = nat (sint (len q)) \<and>
      0 \<le> writeHead q \<and>
      sint (remainingBytes q) = sint (len q) - writeHead q \<and>
      4 \<le> sint (remainingBytes q))"

text \<open>
  A payload size: a byte count \<open>n\<close> that is not negative and for which \<open>n + 8\<close>, the
  frame with its header and the marker slot behind it, is still an \<^verbatim>\<open>int\<close>
  (\<open>n \<le> INT_MAX - 8\<close>). The operations take an \<^verbatim>\<open>int\<close> and do not refuse other
  counts. For a negative count the marker slot is not behind the header slot: at
  \<open>n = -4\<close> the two are the same slot, and the length stored last replaces the marker.
  For a count whose \<open>n + 8\<close> wraps around, the comparison with \<^verbatim>\<open>remainingBytes\<close> is
  made on the wrapped sum.
\<close>

definition payload_size :: "int32 \<Rightarrow> bool" where
  "payload_size n = (0 \<le> sint n \<and> sint n \<le> 2147483639)"

text \<open>
  The states a client can drive the pipe into: \<^verbatim>\<open>tpipe_init\<close> followed by any calls of
  the other operations that return, with payload sizes as byte counts. Between
  \<^verbatim>\<open>tpipe_getWriteBuffer\<close> and \<^verbatim>\<open>tpipe_produce\<close> the producer copies bytes into the
  arena through the pointer it was given, which is never less than 4 bytes into the
  arena (\<open>reach_fill\<close>).
\<close>

inductive reachable :: "TinyPipe \<Rightarrow> bool" where
  reach_init: "tpipe_init heap numBytes = Inr (r, q) \<Longrightarrow> reachable q"
| reach_hasData: "reachable q \<Longrightarrow> tpipe_hasData q = Inr (x, q') \<Longrightarrow> reachable q'"
| reach_getWriteBuffer:
    "reachable q \<Longrightarrow> payload_size n \<Longrightarrow> tpipe_getWriteBuffer q n = Inr (p, q') \<Longrightarrow> reachable q'"
| reach_fill:
    "reachable q \<Longrightarrow> 4 \<le> dst \<Longrightarrow> memcpy (buffer q) dst src n = Inr m \<Longrightarrow>
     reachable (q\<lparr>buffer := m\<rparr>)"
| reach_produce:
    "reachable q \<Longrightarrow> payload_size n \<Longrightarrow> tpipe_produce q n = Inr q' \<Longrightarrow> reachable q'"
| reach_consume: "reachable q \<Longrightarrow> tpipe_consume q = Inr q' \<Longrightarrow> reachable q'"
| reach_clear: "reachable q \<Longrightarrow> tpipe_clear q = Inr q' \<Longrightarrow> reachable q'"

text \<open>
  The slot at the start of the arena: the write head is there or at least one slot
  further on, and the slot holds a value that is not negative (\<open>STOP\<close> or the length
  of a frame), so never \<open>LOOP\<close>.
\<close>

definition start_slot_inv :: "TinyPipe \<Rightarrow> bool" where
  "start_slot_inv q =
     ((writeHead q = 0 \<or> 4 \<le> writeHead q) \<and>
      (case TPIPE_GET_INT32_AT_BUFFER (buffer q) 0 of
         Inl e \<Rightarrow> False
       | Inr v \<Rightarrow> 0 \<le> sint v))"

section \<open>Concrete pipes\<close>

text \<open>
  An arena of 32 bytes (scenarios B and C of the specification): fresh from
  \<^verbatim>\<open>tpipe_init\<close> on a block with indeterminate bytes \<open>g\<close>; holding one frame with the
  20 payload bytes \<open>d\<close>; and with that frame consumed.
\<close>

definition pipe32_empty :: "(nat \<Rightarrow> byte) \<Rightarrow> TinyPipe" where
  "pipe32_empty g =
     \<lparr>buffer = int32_bytes 0 @ map g [4..<32],
      writeHead = 0, readHead = 0, len = 32, remainingBytes = 32\<rparr>"

definition pipe32_one :: "(nat \<Rightarrow> byte) \<Rightarrow> byte list \<Rightarrow> TinyPipe" where
  "pipe32_one g d =
     \<lparr>buffer = int32_bytes 20 @ d @ int32_bytes 0 @ map g [28..<32],
      writeHead = 24, readHead = 0, len = 32, remainingBytes = 8\<rparr>"

definition pipe32_read :: "(nat \<Rightarrow> byte) \<Rightarrow> byte list \<Rightarrow> TinyPipe" where
  "pipe32_read g d =
     \<lparr>buffer = int32_bytes 20 @ d @ int32_bytes 0 @ map g [28..<32],
      writeHead = 24, readHead = 24, len = 32, remainingBytes = 8\<rparr>"

text \<open>The same pipe after a frame of 16 bytes \<open>e\<close> went in through the wrap path.\<close>

definition pipe32_wrapped :: "(nat \<Rightarrow> byte) \<Rightarrow> byte list \<Rightarrow> byte list \<Rightarrow> TinyPipe" where
  "pipe32_wrapped g d e =
     \<lparr>buffer = int32_bytes 16 @ e @ int32_bytes 0 @ int32_bytes (- 1) @ map g [28..<32],
      writeHead = 20, readHead = 24, len = 32, remainingBytes = 12\<rparr>"

text \<open>
  An arena of 64 bytes whose indeterminate bytes are all \<open>0xAA\<close>, and the frames used
  below: A and B of 20 bytes, C of 10 bytes, D of 5 bytes and E of 27 bytes.
\<close>

definition frameA :: "byte list" where "frameA = replicate 20 1"
definition frameB :: "byte list" where "frameB = replicate 20 2"
definition frameC :: "byte list" where "frameC = replicate 10 3"
definition frameD :: "byte list" where "frameD = replicate 5 4"
definition frameE :: "byte list" where "frameE = replicate 27 5"

definition pipe64 :: "byte list \<Rightarrow> int \<Rightarrow> int \<Rightarrow> int32 \<Rightarrow> TinyPipe" where
  "pipe64 m w r n = \<lparr>buffer = m, writeHead = w, readHead = r, len = 64, remainingBytes = n\<rparr>"

definition pipe64_empty :: TinyPipe where
  "pipe64_empty = pipe64 (int32_bytes 0 @ replicate 60 170) 0 0 64"

definition pipe64_A :: TinyPipe where
  "pipe64_A = pipe64 (int32_bytes 20 @ frameA @ int32_bytes 0 @ replicate 36 170) 24 0 40"

definition arena_AB :: "byte list" where
  "arena_AB = int32_bytes 20 @ frameA @ int32_bytes 20 @ frameB @ int32_bytes 0 @ replicate 12 170"

text \<open>Frames A and B written; then A consumed; then B consumed as well.\<close>

definition pipe64_AB :: TinyPipe where
  "pipe64_AB = pipe64 arena_AB 48 0 16"

definition pipe64_B :: TinyPipe where
  "pipe64_B = pipe64 arena_AB 48 24 16"

definition pipe64_drained :: TinyPipe where
  "pipe64_drained = pipe64 arena_AB 48 48 16"

text \<open>
  Frame B unread at offset 24, frame C written through the wrap path (\<open>LOOP\<close> at offset
  48); then frame D written behind C.
\<close>

definition pipe64_BC :: TinyPipe where
  "pipe64_BC =
     pipe64 (int32_bytes 10 @ frameC @ int32_bytes 0 @ replicate 6 1 @
             int32_bytes 20 @ frameB @ int32_bytes (- 1) @ replicate 12 170) 14 24 50"

definition pipe64_BCD :: TinyPipe where
  "pipe64_BCD =
     pipe64 (int32_bytes 10 @ frameC @ int32_bytes 5 @ frameD @ [0] @
             int32_bytes 0 @ frameB @ int32_bytes (- 1) @ replicate 12 170) 23 24 41"

text \<open>
  Everything read, frame C written through the wrap path with the reader still at the
  \<open>LOOP\<close> marker at offset 48; then frame E written behind C.
\<close>

definition pipe64_C :: TinyPipe where
  "pipe64_C =
     pipe64 (int32_bytes 10 @ frameC @ int32_bytes 0 @ replicate 6 1 @
             int32_bytes 20 @ frameB @ int32_bytes (- 1) @ replicate 12 170) 14 48 50"

definition pipe64_CE :: TinyPipe where
  "pipe64_CE =
     pipe64 (int32_bytes 10 @ frameC @ int32_bytes 27 @ frameE @
             int32_bytes 0 @ [255, 255, 255] @ replicate 12 170) 45 48 19"

text \<open>
  The arena of \<open>pipe64_A\<close> once the payload of frame B has been copied behind the
  header slot at offset 24, before \<^verbatim>\<open>tpipe_produce\<close> publishes it.
\<close>

definition arena_A_fill_B :: "byte list" where
  "arena_A_fill_B = int32_bytes 20 @ frameA @ int32_bytes 0 @ frameB @ replicate 16 170"

text \<open>
  The fresh pipe after \<^verbatim>\<open>tpipe_getWriteBuffer\<close> for 4 bytes and \<^verbatim>\<open>tpipe_produce\<close> for
  20 bytes.
\<close>

definition pipe64_overcommit :: TinyPipe where
  "pipe64_overcommit =
     pipe64 (int32_bytes 20 @ replicate 20 170 @ int32_bytes 0 @ replicate 36 170) 24 0 40"

text \<open>
  The fresh pipe after \<^verbatim>\<open>tpipe_getWriteBuffer\<close> and \<^verbatim>\<open>tpipe_produce\<close> for the count
  -4: the heads and \<^verbatim>\<open>remainingBytes\<close> are where they were, and the slot at offset 0
  holds -4.
\<close>

definition pipe64_minus4 :: TinyPipe where
  "pipe64_minus4 = pipe64 (int32_bytes (- 4) @ replicate 60 170) 0 0 64"

section \<open>Stores and loads of 32-bit slots\<close>

lemma length_int32_bytes: "length (int32_bytes x) = 4"
  by (simp add: int32_bytes_def)

lemma bytes_int32_int32_bytes: "bytes_int32 (int32_bytes x) = x"
proof -
  let ?y = "(ucast (ucast x :: byte) :: int32) OR
        push_bit 8 ((ucast (ucast (drop_bit 8 x) :: byte) :: int32) OR
        push_bit 8 ((ucast (ucast (drop_bit 16 x) :: byte) :: int32) OR
        push_bit 8 (ucast (ucast (drop_bit 24 x) :: byte) :: int32)))"
  have "?y = x"
  proof (rule bit_word_eqI)
    fix n :: nat
    assume "n < LENGTH(32)"
    then show "bit ?y n = bit x n"
      by (cases "n < 8"; cases "n < 16"; cases "n < 24") (auto simp add: bit_simps)
  qed
  then show ?thesis
    by (simp add: bytes_int32_def int32_bytes_def)
qed

lemma set_int32_length:
  "TPIPE_SET_INT32_AT_BUFFER m a v = Inr m' \<Longrightarrow> length m' = length m"
  by (auto simp add: TPIPE_SET_INT32_AT_BUFFER_def in_arena_def length_int32_bytes split: if_splits)

lemma set_int32_in_arena:
  "in_arena m a 4 \<Longrightarrow> \<exists>m'. TPIPE_SET_INT32_AT_BUFFER m a v = Inr m'"
  by (simp add: TPIPE_SET_INT32_AT_BUFFER_def)

lemma get_set_int32_same:
  assumes "TPIPE_SET_INT32_AT_BUFFER m a v = Inr m'"
  shows "TPIPE_GET_INT32_AT_BUFFER m' a = Inr v"
proof -
  from assms have ar: "in_arena m a 4"
    and m': "m' = take (nat a) m @ int32_bytes v @ drop (nat a + 4) m"
    by (auto simp add: TPIPE_SET_INT32_AT_BUFFER_def split: if_splits)
  from ar have l: "length (take (nat a) m) = nat a"
    by (auto simp add: in_arena_def)
  have "drop (nat a) m' = int32_bytes v @ drop (nat a + 4) m"
    using l by (simp add: m')
  then have "take 4 (drop (nat a) m') = int32_bytes v"
    by (simp add: length_int32_bytes)
  moreover have "in_arena m' a 4"
    using ar set_int32_length [OF assms] by (simp add: in_arena_def)
  ultimately show ?thesis
    by (simp add: TPIPE_GET_INT32_AT_BUFFER_def bytes_int32_int32_bytes)
qed

lemma set_int32_nth:
  assumes "TPIPE_SET_INT32_AT_BUFFER m a v = Inr m'"
    and "int i < a \<or> a + 4 \<le> int i"
  shows "m' ! i = m ! i"
proof -
  from assms(1) have ar: "in_arena m a 4"
    and m': "m' = take (nat a) m @ int32_bytes v @ drop (nat a + 4) m"
    by (auto simp add: TPIPE_SET_INT32_AT_BUFFER_def split: if_splits)
  from ar have a: "0 \<le> a" "nat a + 4 \<le> length m"
    by (auto simp add: in_arena_def)
  show ?thesis
  proof (cases "int i < a")
    case True
    then have "i < nat a" using a by linarith
    then show ?thesis using a by (simp add: m' nth_append)
  next
    case False
    with assms(2) have "nat a + 4 \<le> i" using a by linarith
    moreover have "m' = (take (nat a) m @ int32_bytes v) @ drop (nat a + 4) m"
      by (simp add: m')
    moreover have "length (take (nat a) m @ int32_bytes v) = nat a + 4"
      using a by (simp add: length_int32_bytes)
    ultimately have "m' ! i = drop (nat a + 4) m ! (i - (nat a + 4))"
      by (simp only: nth_append) simp
    then show ?thesis using a \<open>nat a + 4 \<le> i\<close> by simp
  qed
qed

lemma get_int32_cong:
  assumes "length m' = length m"
    and "\<And>i. a \<le> int i \<Longrightarrow> int i < a + 4 \<Longrightarrow> i < length m \<Longrightarrow> m' ! i = m ! i"
  shows "TPIPE_GET_INT32_AT_BUFFER m' a = TPIPE_GET_INT32_AT_BUFFER m a"
proof (cases "in_arena m a 4")
  case False
  then show ?thesis using assms(1) by (auto simp add: TPIPE_GET_INT32_AT_BUFFER_def in_arena_def)
next
  case True
  then have a: "0 \<le> a" "nat a + 4 \<le> length m"
    by (auto simp add: in_arena_def)
  have "take 4 (drop (nat a) m') = take 4 (drop (nat a) m)"
  proof (rule nth_equalityI)
    show "length (take 4 (drop (nat a) m')) = length (take 4 (drop (nat a) m))"
      using assms(1) by simp
  next
    fix i assume "i < length (take 4 (drop (nat a) m'))"
    then have i: "i < 4" by simp
    then have "m' ! (nat a + i) = m ! (nat a + i)"
      using a by (intro assms(2)) auto
    then show "take 4 (drop (nat a) m') ! i = take 4 (drop (nat a) m) ! i"
      using i a assms(1) by simp
  qed
  then show ?thesis using True assms(1)
    by (simp add: TPIPE_GET_INT32_AT_BUFFER_def in_arena_def)
qed

lemma get_set_int32_other:
  assumes "TPIPE_SET_INT32_AT_BUFFER m a v = Inr m'"
    and "a' + 4 \<le> a \<or> a + 4 \<le> a'"
  shows "TPIPE_GET_INT32_AT_BUFFER m' a' = TPIPE_GET_INT32_AT_BUFFER m a'"
proof (rule get_int32_cong)
  show "length m' = length m" by (rule set_int32_length [OF assms(1)])
next
  fix i assume "a' \<le> int i" "int i < a' + 4" "i < length m"
  with assms(2) have "int i < a \<or> a + 4 \<le> int i" by linarith
  then show "m' ! i = m ! i" by (rule set_int32_nth [OF assms(1)])
qed

lemma get_int32_zeros:
  assumes "4 \<le> n"
  shows "TPIPE_GET_INT32_AT_BUFFER (replicate n 0) 0 = Inr 0"
proof -
  from assms have "take 4 (replicate n (0::byte)) = [0, 0, 0, 0]"
    by (simp add: min_def numeral_eq_Suc)
  then show ?thesis using assms
    by (simp add: TPIPE_GET_INT32_AT_BUFFER_def in_arena_def bytes_int32_def)
qed

section \<open>Signed 32-bit sums that do not wrap\<close>

lemma sint_int32_range: "- 2147483648 \<le> sint (x :: int32) \<and> sint x \<le> 2147483647"
  using sint_ge [of x] sint_lt [of x] by simp

lemma sint_plus_8:
  assumes "payload_size n"
  shows "sint (n + 8) = sint n + 8"
proof -
  have "sint (n + 8) = signed_take_bit 31 (sint n + 8)"
    by (simp add: sint_word_ariths)
  also have "\<dots> = sint n + 8"
    using assms by (intro signed_take_bit_int_eq_self) (simp_all add: payload_size_def)
  finally show ?thesis .
qed

lemma sint_minus_frame:
  fixes n r :: int32
  assumes "0 \<le> sint n" and "sint n + 8 \<le> sint r"
  shows "sint (r - (4 + n)) = sint r - (4 + sint n)"
proof -
  have r: "sint r \<le> 2147483647"
    using sint_int32_range [of r] by simp
  have "sint (4 + n) = signed_take_bit 31 (4 + sint n)"
    by (simp add: sint_word_ariths)
  also have "\<dots> = 4 + sint n"
    using assms r by (intro signed_take_bit_int_eq_self) simp_all
  finally have f: "sint (4 + n) = 4 + sint n" .
  have "sint (r - (4 + n)) = signed_take_bit 31 (sint r - sint (4 + n))"
    by (simp add: sint_word_ariths)
  also have "\<dots> = sint r - sint (4 + n)"
    using assms r f by (intro signed_take_bit_int_eq_self) simp_all
  finally show ?thesis using f by simp
qed

section \<open>The producer's bookkeeping is kept by every operation\<close>

lemma pipe_inv_arena_ok: "pipe_inv q \<Longrightarrow> arena_ok q"
  by (simp add: pipe_inv_def arena_ok_def)

lemma pipe_inv_buffer:
  "pipe_inv q \<Longrightarrow> length m = length (buffer q) \<Longrightarrow> pipe_inv (q\<lparr>buffer := m\<rparr>)"
  by (simp add: pipe_inv_def)

lemma memcpy_length: "memcpy m dst src n = Inr m' \<Longrightarrow> length m' = length m"
  by (auto simp add: memcpy_def in_arena_def split: if_splits)

lemma init_pipe_inv:
  assumes "tpipe_init heap numBytes = Inr (r, q)"
  shows "pipe_inv q \<and> r = numBytes \<and> len q = numBytes \<and> writeHead q = 0 \<and> readHead q = 0 \<and>
         TPIPE_GET_INT32_AT_BUFFER (buffer q) 0 = Inr HLP_STOP"
proof -
  from assms have pos: "0 < sint numBytes"
    by (simp add: tpipe_init_def split: if_splits)
  from assms pos obtain g where h: "heap = Some g"
    by (cases heap) (simp_all add: tpipe_init_def)
  let ?m0 = "map g [0..<nat (sint numBytes)]"
  from assms pos h obtain m where
    s: "TPIPE_SET_INT32_AT_BUFFER ?m0 0 HLP_STOP = Inr m"
    by (cases "TPIPE_SET_INT32_AT_BUFFER ?m0 0 HLP_STOP") (simp_all add: tpipe_init_def)
  from assms pos h s have
    q: "q = \<lparr>buffer = m, writeHead = 0, readHead = 0, len = numBytes, remainingBytes = numBytes\<rparr>" and
    r: "r = numBytes"
    by (auto simp add: tpipe_init_def)
  have l: "length m = nat (sint numBytes)"
    using set_int32_length [OF s] by simp
  from s have "in_arena (map g [0..<nat (sint numBytes)]) 0 4"
    by (simp add: TPIPE_SET_INT32_AT_BUFFER_def split: if_splits)
  then have "4 \<le> sint numBytes"
    by (simp add: in_arena_def split: if_splits)
  with l get_set_int32_same [OF s] show ?thesis
    by (simp add: q r pipe_inv_def)
qed

lemma getWriteBuffer_some:
  assumes inv: "pipe_inv q" and n: "payload_size n"
    and acq: "tpipe_getWriteBuffer q n = Inr (Some p, q1)"
  shows "pipe_inv q1 \<and> sint n + 8 \<le> sint (remainingBytes q1) \<and> p = writeHead q1 + 4 \<and>
         len q1 = len q \<and> readHead q1 = readHead q \<and> length (buffer q1) = length (buffer q)"
proof (cases "sint (n + 8) \<le> sint (remainingBytes q)")
  case True
  with acq have "q1 = q" "p = writeHead q + 4"
    by (auto simp add: tpipe_getWriteBuffer_def Let_def split: if_splits)
  with True inv show ?thesis
    by (simp add: sint_plus_8 [OF n])
next
  case False
  with acq obtain m1 m2 where
    fits: "sint (n + 8) \<le> sint (len q)" and
    s1: "TPIPE_SET_INT32_AT_BUFFER (buffer q) 0 HLP_STOP = Inr m1" and
    s2: "TPIPE_SET_INT32_AT_BUFFER m1 (writeHead q) HLP_LOOP = Inr m2" and
    q1: "q1 = q\<lparr>writeHead := 0, remainingBytes := len q, buffer := m2\<rparr>" and
    p: "p = 4"
    by (auto simp add: tpipe_getWriteBuffer_def Let_def split: if_splits sum.splits)
  have l: "length m2 = length (buffer q)"
    using set_int32_length [OF s1] set_int32_length [OF s2] by simp
  from inv have "4 \<le> sint (len q)"
    by (simp add: pipe_inv_def)
  with inv l fits show ?thesis
    by (simp add: q1 p pipe_inv_def sint_plus_8 [OF n])
qed

lemma getWriteBuffer_pipe_inv:
  assumes "pipe_inv q" and "payload_size n" and "tpipe_getWriteBuffer q n = Inr (p, q')"
  shows "pipe_inv q'"
proof (cases p)
  case None
  with assms(3) have "q' = q"
    by (auto simp add: tpipe_getWriteBuffer_def Let_def split: if_splits sum.splits)
  with assms(1) show ?thesis by simp
next
  case (Some a)
  with getWriteBuffer_some [OF assms(1,2)] assms(3) show ?thesis by simp
qed

lemma produce_ok:
  assumes inv: "pipe_inv q" and n0: "0 \<le> sint n"
    and fits: "sint n + 8 \<le> sint (remainingBytes q)"
  shows "\<exists>q2. tpipe_produce q n = Inr q2 \<and>
           TPIPE_GET_INT32_AT_BUFFER (buffer q2) (writeHead q + (4 + sint n)) = Inr HLP_STOP \<and>
           TPIPE_GET_INT32_AT_BUFFER (buffer q2) (writeHead q) = Inr n \<and>
           writeHead q2 = writeHead q + (4 + sint n) \<and>
           sint (remainingBytes q2) = sint (remainingBytes q) - (4 + sint n) \<and>
           len q2 = len q \<and> readHead q2 = readHead q \<and> pipe_inv q2"
proof -
  have ps: "payload_size n"
    using n0 fits sint_int32_range [of "remainingBytes q"] by (simp add: payload_size_def)
  have a: "sint (remainingBytes q) \<ge> sint (n + 8)"
    using fits by (simp add: sint_plus_8 [OF ps])
  from inv have g: "length (buffer q) = nat (sint (len q))" "0 \<le> writeHead q"
    "sint (remainingBytes q) = sint (len q) - writeHead q"
    by (simp_all add: pipe_inv_def)
  have "in_arena (buffer q) (writeHead q + (4 + sint n)) 4"
    using g n0 fits by (simp add: in_arena_def)
  then obtain m1 where
    s1: "TPIPE_SET_INT32_AT_BUFFER (buffer q) (writeHead q + (4 + sint n)) HLP_STOP = Inr m1"
    using set_int32_in_arena by blast
  have l1: "length m1 = length (buffer q)"
    by (rule set_int32_length [OF s1])
  have "in_arena m1 (writeHead q) 4"
    using g n0 fits l1 by (simp add: in_arena_def)
  then obtain m2 where
    s2: "TPIPE_SET_INT32_AT_BUFFER m1 (writeHead q) n = Inr m2"
    using set_int32_in_arena by blast
  have l2: "length m2 = length (buffer q)"
    using set_int32_length [OF s2] l1 by simp
  let ?q2 = "q\<lparr>remainingBytes := remainingBytes q - (4 + n),
               writeHead := writeHead q + (4 + sint n), buffer := m2\<rparr>"
  have p: "tpipe_produce q n = Inr ?q2"
    using a s1 s2 by (simp add: tpipe_produce_def Let_def)
  have "TPIPE_GET_INT32_AT_BUFFER m2 (writeHead q + (4 + sint n))
          = TPIPE_GET_INT32_AT_BUFFER m1 (writeHead q + (4 + sint n))"
    using n0 by (intro get_set_int32_other [OF s2]) simp
  then have stop: "TPIPE_GET_INT32_AT_BUFFER m2 (writeHead q + (4 + sint n)) = Inr HLP_STOP"
    by (simp add: get_set_int32_same [OF s1])
  have hdr: "TPIPE_GET_INT32_AT_BUFFER m2 (writeHead q) = Inr n"
    by (rule get_set_int32_same [OF s2])
  have r: "sint (remainingBytes q - (4 + n)) = sint (remainingBytes q) - (4 + sint n)"
    by (rule sint_minus_frame [OF n0 fits])
  have "pipe_inv ?q2"
    using g n0 fits l2 r by (simp add: pipe_inv_def)
  with p stop hdr r show ?thesis by simp
qed

lemma produce_pipe_inv:
  assumes "pipe_inv q" and "payload_size n" and "tpipe_produce q n = Inr q'"
  shows "pipe_inv q'"
proof -
  from assms(3) have "sint (n + 8) \<le> sint (remainingBytes q)"
    by (simp add: tpipe_produce_def split: if_splits)
  then have "sint n + 8 \<le> sint (remainingBytes q)"
    by (simp add: sint_plus_8 [OF assms(2)])
  moreover from assms(2) have "0 \<le> sint n"
    by (simp add: payload_size_def)
  ultimately show ?thesis
    using produce_ok [OF assms(1), of n] assms(3) by auto
qed

lemma hasData_pipe_inv:
  "pipe_inv q \<Longrightarrow> tpipe_hasData q = Inr (x, q') \<Longrightarrow> pipe_inv q'"
  by (auto simp add: tpipe_hasData_def pipe_inv_def Let_def split: sum.splits if_splits)

lemma consume_pipe_inv:
  "pipe_inv q \<Longrightarrow> tpipe_consume q = Inr q' \<Longrightarrow> pipe_inv q'"
  by (auto simp add: tpipe_consume_def pipe_inv_def split: sum.splits if_splits)

lemma clear_pipe_inv:
  "pipe_inv q \<Longrightarrow> tpipe_clear q = Inr q' \<Longrightarrow> pipe_inv q'"
  by (auto simp add: tpipe_clear_def memset_def pipe_inv_def Let_def split: sum.splits if_splits)

lemma reachable_pipe_inv: "reachable q \<Longrightarrow> pipe_inv q"
proof (induction rule: reachable.induct)
  case (reach_init heap numBytes r q)
  then show ?case by (simp add: init_pipe_inv)
next
  case (reach_hasData q x q')
  then show ?case by (simp add: hasData_pipe_inv)
next
  case (reach_getWriteBuffer q n p q')
  then show ?case by (simp add: getWriteBuffer_pipe_inv)
next
  case (reach_fill q dst src n m)
  then show ?case by (simp add: pipe_inv_buffer memcpy_length)
next
  case (reach_produce q n q')
  then show ?case by (simp add: produce_pipe_inv)
next
  case (reach_consume q q')
  then show ?case by (simp add: consume_pipe_inv)
next
  case (reach_clear q q')
  then show ?case by (simp add: clear_pipe_inv)
qed

lemma reachable_write:
  assumes "reachable q" and "payload_size n" and "tpipe_write q d n = Inr (r, q')"
  shows "reachable q'"
proof -
  from assms(3) obtain p q1 where a: "tpipe_getWriteBuffer q n = Inr (p, q1)"
    by (cases "tpipe_getWriteBuffer q n") (auto simp add: tpipe_write_def)
  have r1: "reachable q1"
    by (rule reach_getWriteBuffer [OF assms(1,2) a])
  show ?thesis
  proof (cases p)
    case None
    with assms(3) a have "q' = q1" by (simp add: tpipe_write_def)
    with r1 show ?thesis by simp
  next
    case (Some buf)
    with assms(3) a obtain m where
      c: "memcpy (buffer q1) buf d n = Inr m" and
      pr: "tpipe_produce (q1\<lparr>buffer := m\<rparr>) n = Inr q'"
      by (auto simp add: tpipe_write_def split: sum.splits)
    from getWriteBuffer_some [OF reachable_pipe_inv [OF assms(1)] assms(2)] a Some
    have "pipe_inv q1" and "buf = writeHead q1 + 4"
      by simp_all
    then have b: "4 \<le> buf"
      by (simp add: pipe_inv_def)
    from reach_produce [OF reach_fill [OF r1 b c] assms(2) pr] show ?thesis .
  qed
qed

section \<open>Running the operations on the concrete pipes\<close>

lemma run64_init: "tpipe_init (Some (\<lambda>_. 170)) 64 = Inr (64, pipe64_empty)"
  by code_simp

lemma run64_write_A: "tpipe_write pipe64_empty frameA 20 = Inr (1, pipe64_A)"
  by code_simp

lemma run64_write_B: "tpipe_write pipe64_A frameB 20 = Inr (1, pipe64_AB)"
  by code_simp

lemma run64_consume_A: "tpipe_consume pipe64_AB = Inr pipe64_B"
  by code_simp

lemma run64_consume_B: "tpipe_consume pipe64_B = Inr pipe64_drained"
  by code_simp

lemma pipe_inv_pipe64_empty: "pipe_inv pipe64_empty"
  using init_pipe_inv [OF run64_init] by simp

lemma reachable_pipe64_A: "reachable pipe64_A"
  by (rule reachable_write [OF reach_init [OF run64_init] _ run64_write_A])
     (simp add: payload_size_def)

lemma reachable_pipe64_AB: "reachable pipe64_AB"
  by (rule reachable_write [OF reachable_pipe64_A _ run64_write_B])
     (simp add: payload_size_def)

lemma reachable_pipe64_drained: "reachable pipe64_drained"
  by (rule reach_consume [OF reach_consume [OF reachable_pipe64_AB run64_consume_A] run64_consume_B])

section \<open>Failure of \<^verbatim>\<open>tpipe_getWriteBuffer\<close> changes nothing\<close>

text \<open>
  Claim C9. Whenever \<^verbatim>\<open>tpipe_getWriteBuffer\<close> returns \<^verbatim>\<open>NULL\<close>, through whichever of
  its three failing branches (the tail would run into the read head, the wrapped region
  would, or the request is larger than the arena), the pipe is exactly as before the
  call: write head, read head, \<^verbatim>\<open>remainingBytes\<close>, \<^verbatim>\<open>len\<close> and every byte of the arena.
\<close>

theorem getWriteBuffer_null_unchanged:
  assumes "tpipe_getWriteBuffer q bytesToWrite = Inr (None, q')"
  shows "q' = q"
  using assms
  by (auto simp add: tpipe_getWriteBuffer_def Let_def split: if_splits sum.splits)

theorem getWriteBuffer_null_unchanged_witness:
  "(case tpipe_getWriteBuffer pipe64_AB 20 of
      Inr (None, q') \<Rightarrow> q' = pipe64_AB
    | _ \<Rightarrow> False)"
proof -
  obtain q' where h: "tpipe_getWriteBuffer pipe64_AB 20 = Inr (None, q')"
    by (simp add: tpipe_getWriteBuffer_def pipe64_AB_def pipe64_def)
  from getWriteBuffer_null_unchanged [OF h] h show ?thesis
    by simp
qed

section \<open>\<^verbatim>\<open>tpipe_consume\<close>\<close>

text \<open>
  Claim C7. Let \<open>x\<close> be the value stored at the read head. If \<open>x\<close> is \<open>STOP\<close>,
  \<^verbatim>\<open>tpipe_consume\<close> fails its assertion. Otherwise it moves the read head forward by
  4 plus \<open>x\<close> and changes nothing else: the write head, \<^verbatim>\<open>len\<close>, \<^verbatim>\<open>remainingBytes\<close>
  and the arena are those of the pipe before the call.
\<close>

theorem consume_effect:
  assumes "TPIPE_GET_INT32_AT_BUFFER (buffer q) (readHead q) = Inr x"
  shows "tpipe_consume q =
           (if x = HLP_STOP then Inl AssertionFailure
            else Inr (q\<lparr>readHead := readHead q + (4 + sint x)\<rparr>))"
  using assms by (simp add: tpipe_consume_def)

theorem consume_effect_witness:
  "TPIPE_GET_INT32_AT_BUFFER (buffer pipe64_AB) (readHead pipe64_AB) = Inr 20 \<and>
   tpipe_consume pipe64_AB = Inr (pipe64_AB\<lparr>readHead := 24\<rparr>) \<and>
   TPIPE_GET_INT32_AT_BUFFER (buffer pipe64_drained) (readHead pipe64_drained) = Inr HLP_STOP \<and>
   tpipe_consume pipe64_drained = Inl AssertionFailure"
proof -
  have a: "TPIPE_GET_INT32_AT_BUFFER (buffer pipe64_AB) (readHead pipe64_AB) = Inr 20"
    by code_simp
  have b: "TPIPE_GET_INT32_AT_BUFFER (buffer pipe64_drained) (readHead pipe64_drained) = Inr HLP_STOP"
    by code_simp
  have r: "readHead pipe64_AB = 0"
    by (simp add: pipe64_AB_def pipe64_def)
  from consume_effect [OF a] consume_effect [OF b] a b r show ?thesis
    by (simp add: HLP_STOP_def)
qed

section \<open>\<^verbatim>\<open>tpipe_hasData\<close>\<close>

text \<open>
  Claim C6. Let \<open>x\<close> be the value first read at the read head. \<^verbatim>\<open>tpipe_hasData\<close>
  moves the read head to the start of the arena exactly when \<open>x\<close> is \<open>LOOP\<close>, reading
  once more there, and leaves it where it was otherwise. It returns the value \<open>v\<close> stored
  at the read head so resolved: the length of the frame when that is a frame header, and
  0 when it is the \<open>STOP\<close> marker. Nothing but the read head changes.
\<close>

theorem hasData_effect:
  assumes "arena_ok q"
    and "TPIPE_GET_INT32_AT_BUFFER (buffer q) (readHead q) = Inr x"
  shows "\<exists>v. TPIPE_GET_INT32_AT_BUFFER (buffer q) (if x = HLP_LOOP then 0 else readHead q) = Inr v \<and>
             tpipe_hasData q = Inr (v, q\<lparr>readHead := (if x = HLP_LOOP then 0 else readHead q)\<rparr>)"
proof -
  from assms(1) have "in_arena (buffer q) 0 4"
    by (simp add: arena_ok_def in_arena_def)
  then obtain v0 where "TPIPE_GET_INT32_AT_BUFFER (buffer q) 0 = Inr v0"
    by (simp add: TPIPE_GET_INT32_AT_BUFFER_def)
  with assms(2) show ?thesis
    by (simp add: tpipe_hasData_def Let_def)
qed

theorem hasData_effect_witness:
  "arena_ok pipe64_C \<and>
   TPIPE_GET_INT32_AT_BUFFER (buffer pipe64_C) (readHead pipe64_C) = Inr HLP_LOOP \<and>
   tpipe_hasData pipe64_C = Inr (10, pipe64_C\<lparr>readHead := 0\<rparr>) \<and>
   arena_ok pipe64_AB \<and>
   TPIPE_GET_INT32_AT_BUFFER (buffer pipe64_AB) (readHead pipe64_AB) = Inr 20 \<and>
   tpipe_hasData pipe64_AB = Inr (20, pipe64_AB) \<and>
   arena_ok pipe64_drained \<and>
   TPIPE_GET_INT32_AT_BUFFER (buffer pipe64_drained) (readHead pipe64_drained) = Inr HLP_STOP \<and>
   tpipe_hasData pipe64_drained = Inr (0, pipe64_drained)"
proof -
  have a1: "arena_ok pipe64_C" and a2: "arena_ok pipe64_AB" and a3: "arena_ok pipe64_drained"
    by code_simp+
  have g1: "TPIPE_GET_INT32_AT_BUFFER (buffer pipe64_C) (readHead pipe64_C) = Inr HLP_LOOP"
    by code_simp
  have g2: "TPIPE_GET_INT32_AT_BUFFER (buffer pipe64_AB) (readHead pipe64_AB) = Inr 20"
    by code_simp
  have g3: "TPIPE_GET_INT32_AT_BUFFER (buffer pipe64_drained) (readHead pipe64_drained) = Inr HLP_STOP"
    by code_simp
  have z: "TPIPE_GET_INT32_AT_BUFFER (buffer pipe64_C) 0 = Inr 10"
    by code_simp
  from hasData_effect [OF a1 g1] z
  have h1: "tpipe_hasData pipe64_C = Inr (10, pipe64_C\<lparr>readHead := 0\<rparr>)"
    by simp
  from hasData_effect [OF a2 g2] g2
  have h2: "tpipe_hasData pipe64_AB = Inr (20, pipe64_AB)"
    by (simp add: HLP_LOOP_def)
  from hasData_effect [OF a3 g3] g3
  have h3: "tpipe_hasData pipe64_drained = Inr (0, pipe64_drained)"
    by (simp add: HLP_LOOP_def HLP_STOP_def)
  from a1 a2 a3 g1 g2 g3 h1 h2 h3 show ?thesis
    by simp
qed

section \<open>\<^verbatim>\<open>tpipe_clear\<close>\<close>

text \<open>
  Claim C8. From any pipe, wherever its heads are and whatever its arena holds,
  \<^verbatim>\<open>tpipe_clear\<close> returns with both heads at the start of the arena, \<^verbatim>\<open>remainingBytes\<close>
  equal to the full capacity \<^verbatim>\<open>len\<close> and every byte of the arena zero. On the cleared
  pipe \<^verbatim>\<open>tpipe_hasData\<close> returns 0 (without moving anything) and
  \<^verbatim>\<open>tpipe_getTotalData\<close> returns 0.
\<close>

theorem clear_postcondition:
  assumes "arena_ok q"
  shows "\<exists>q'. tpipe_clear q = Inr q' \<and>
           writeHead q' = 0 \<and> readHead q' = 0 \<and>
           remainingBytes q' = len q \<and> len q' = len q \<and>
           buffer q' = replicate (length (buffer q)) 0 \<and>
           tpipe_hasData q' = Inr (0, q') \<and>
           tpipe_getTotalData q' = Some (Inr 0)"
proof -
  let ?q' = "q\<lparr>writeHead := 0, readHead := 0, remainingBytes := len q,
               buffer := replicate (length (buffer q)) 0\<rparr>"
  from assms have n: "length (buffer q) = nat (sint (len q))" "4 \<le> length (buffer q)"
    by (auto simp add: arena_ok_def)
  have c: "tpipe_clear q = Inr ?q'"
    using assms by (simp add: tpipe_clear_def memset_def arena_ok_def Let_def)
  have g: "TPIPE_GET_INT32_AT_BUFFER (buffer ?q') (readHead ?q') = Inr 0"
    using get_int32_zeros [OF n(2)] by simp
  have h: "tpipe_hasData ?q' = Inr (0, ?q')"
    by (simp only: tpipe_hasData_def g) (simp add: HLP_LOOP_def)
  have t: "tpipe_getTotalData ?q' = Some (Inr 0)"
    unfolding tpipe_getTotalData_def
    by (subst getTotalData_loop.simps) (simp only: g, simp add: HLP_STOP_def)
  from c h t show ?thesis by simp
qed

theorem clear_postcondition_witness:
  "arena_ok pipe64_BCD \<and>
   tpipe_clear pipe64_BCD = Inr (pipe64 (replicate 64 0) 0 0 64) \<and>
   tpipe_hasData (pipe64 (replicate 64 0) 0 0 64) = Inr (0, pipe64 (replicate 64 0) 0 0 64) \<and>
   tpipe_getTotalData (pipe64 (replicate 64 0) 0 0 64) = Some (Inr 0)"
proof -
  have a: "arena_ok pipe64_BCD"
    by code_simp
  from clear_postcondition [OF a] obtain q' where
    c: "tpipe_clear pipe64_BCD = Inr q'" and
    h: "tpipe_hasData q' = Inr (0, q')" and
    t: "tpipe_getTotalData q' = Some (Inr 0)"
    by blast
  have "tpipe_clear pipe64_BCD = Inr (pipe64 (replicate 64 0) 0 0 64)"
    by code_simp
  with c have "q' = pipe64 (replicate 64 0) 0 0 64"
    by simp
  with a c h t show ?thesis by simp
qed

section \<open>\<^verbatim>\<open>tpipe_produce\<close> after a successful \<^verbatim>\<open>tpipe_getWriteBuffer\<close>\<close>

text \<open>
  Claim C5 says that after \<^verbatim>\<open>tpipe_getWriteBuffer\<close> for \<open>n\<close> returned a pointer,
  \<^verbatim>\<open>tpipe_produce\<close> for \<open>n\<close> leaves \<open>STOP\<close> in the slot behind the payload and \<open>n\<close>
  in the slot at the old write head, for every \<open>n\<close>. The functions take any \<^verbatim>\<open>int\<close>.
  On a fresh pipe of 64 bytes \<^verbatim>\<open>tpipe_getWriteBuffer\<close> for -4 returns a pointer
  (\<open>totalByteRequirement\<close> is 4); \<^verbatim>\<open>tpipe_produce\<close> for -4 passes its assertion,
  moves the write head by \<open>4 + (-4) = 0\<close>, stores \<open>STOP\<close> at offset 0 and then -4 at
  the old write head, which is offset 0 as well. The slot behind the payload end holds
  -4, not \<open>STOP\<close>.
\<close>

theorem produce_negative_count_counterexample:
  "tpipe_init (Some (\<lambda>_. 170)) 64 = Inr (64, pipe64_empty) \<and>
   tpipe_getWriteBuffer pipe64_empty (- 4) = Inr (Some 4, pipe64_empty) \<and>
   tpipe_produce pipe64_empty (- 4) = Inr pipe64_minus4 \<and>
   writeHead pipe64_empty + (4 + sint (- 4 :: int32)) = 0 \<and>
   TPIPE_GET_INT32_AT_BUFFER (buffer pipe64_minus4) 0 = Inr (- 4) \<and>
   (- 4 :: int32) \<noteq> HLP_STOP"
proof -
  have "tpipe_getWriteBuffer pipe64_empty (- 4) = Inr (Some 4, pipe64_empty)"
    by code_simp
  moreover have "tpipe_produce pipe64_empty (- 4) = Inr pipe64_minus4"
    by code_simp
  moreover have "writeHead pipe64_empty + (4 + sint (- 4 :: int32)) = 0"
    by (simp add: pipe64_empty_def pipe64_def)
  moreover have "TPIPE_GET_INT32_AT_BUFFER (buffer pipe64_minus4) 0 = Inr (- 4)"
    by code_simp
  moreover have "(- 4 :: int32) \<noteq> HLP_STOP"
    by (simp add: HLP_STOP_def)
  ultimately show ?thesis
    using run64_init by simp
qed

text \<open>
  Claim C5 as amended: the claim for byte counts \<open>n\<close> with \<open>0 \<le> n \<le> INT_MAX - 8\<close>
  (\<open>payload_size\<close>). Let \<^verbatim>\<open>tpipe_getWriteBuffer\<close> for such an \<open>n\<close> return a pointer and
  the pipe \<open>q1\<close>, from a pipe whose producer bookkeeping is in order (as it is in every
  reachable pipe, \<open>reachable_pipe_inv\<close>), and let the producer fill the arena in any way
  (\<open>m\<close>). Then \<^verbatim>\<open>tpipe_produce\<close> for \<open>n\<close> returns, and afterwards the slot right behind
  the payload holds \<open>STOP\<close>, the slot at the old write head holds \<open>n\<close>, the write
  head has moved by exactly \<open>4 + n\<close> and \<^verbatim>\<open>remainingBytes\<close> has dropped by exactly
  \<open>4 + n\<close>.
\<close>

theorem produce_postcondition:
  assumes "pipe_inv q" and "payload_size n"
    and "tpipe_getWriteBuffer q n = Inr (Some p, q1)"
    and "length m = length (buffer q1)"
  shows "\<exists>q2. tpipe_produce (q1\<lparr>buffer := m\<rparr>) n = Inr q2 \<and>
           TPIPE_GET_INT32_AT_BUFFER (buffer q2) (writeHead q1 + (4 + sint n)) = Inr HLP_STOP \<and>
           TPIPE_GET_INT32_AT_BUFFER (buffer q2) (writeHead q1) = Inr n \<and>
           writeHead q2 = writeHead q1 + (4 + sint n) \<and>
           sint (remainingBytes q2) = sint (remainingBytes q1) - (4 + sint n)"
proof -
  from getWriteBuffer_some [OF assms(1-3)]
  have i: "pipe_inv q1" and f: "sint n + 8 \<le> sint (remainingBytes q1)"
    by simp_all
  from assms(2) have n0: "0 \<le> sint n"
    by (simp add: payload_size_def)
  from produce_ok [OF pipe_inv_buffer [OF i assms(4)] n0] f
  show ?thesis by auto
qed

theorem produce_postcondition_witness:
  "pipe_inv pipe64_A \<and> payload_size 20 \<and>
   tpipe_getWriteBuffer pipe64_A 20 = Inr (Some 28, pipe64_A) \<and>
   length arena_A_fill_B = length (buffer pipe64_A) \<and>
   tpipe_produce (pipe64_A\<lparr>buffer := arena_A_fill_B\<rparr>) 20 = Inr pipe64_AB \<and>
   TPIPE_GET_INT32_AT_BUFFER (buffer pipe64_AB) 48 = Inr HLP_STOP \<and>
   TPIPE_GET_INT32_AT_BUFFER (buffer pipe64_AB) 24 = Inr 20 \<and>
   writeHead pipe64_AB = 48 \<and>
   sint (remainingBytes pipe64_AB) = 40 - 24"
proof -
  have i: "pipe_inv pipe64_A"
    by (rule reachable_pipe_inv [OF reachable_pipe64_A])
  have n: "payload_size 20"
    by (simp add: payload_size_def)
  have a: "tpipe_getWriteBuffer pipe64_A 20 = Inr (Some 28, pipe64_A)"
    by code_simp
  have l: "length arena_A_fill_B = length (buffer pipe64_A)"
    by code_simp
  have w: "writeHead pipe64_A = 24" and r: "sint (remainingBytes pipe64_A) = 40"
    by (simp_all add: pipe64_A_def pipe64_def)
  have p: "tpipe_produce (pipe64_A\<lparr>buffer := arena_A_fill_B\<rparr>) 20 = Inr pipe64_AB"
    by code_simp
  from produce_postcondition [OF i n a l] p w r
  have "TPIPE_GET_INT32_AT_BUFFER (buffer pipe64_AB) 48 = Inr HLP_STOP \<and>
        TPIPE_GET_INT32_AT_BUFFER (buffer pipe64_AB) 24 = Inr 20 \<and>
        writeHead pipe64_AB = 48 \<and>
        sint (remainingBytes pipe64_AB) = 40 - 24"
    by simp
  with i n a l p show ?thesis by simp
qed

section \<open>The assertion of \<^verbatim>\<open>tpipe_produce\<close>\<close>

text \<open>
  Claim C4 says that \<^verbatim>\<open>tpipe_produce\<close> fails its assertion for every byte count above
  the count \<open>b\<close> that the preceding \<^verbatim>\<open>tpipe_getWriteBuffer\<close> reserved. The pipe does
  not record \<open>b\<close>: the assertion compares the count with \<^verbatim>\<open>remainingBytes\<close>. On a fresh
  pipe of 64 bytes, after \<^verbatim>\<open>tpipe_getWriteBuffer\<close> for 4 bytes, \<^verbatim>\<open>tpipe_produce\<close> for
  20 bytes passes the assertion and publishes a frame of 20 bytes.
\<close>

theorem produce_beyond_reserved_counterexample:
  "tpipe_init (Some (\<lambda>_. 170)) 64 = Inr (64, pipe64_empty) \<and>
   tpipe_getWriteBuffer pipe64_empty 4 = Inr (Some 4, pipe64_empty) \<and>
   tpipe_produce pipe64_empty 20 = Inr pipe64_overcommit \<and>
   tpipe_hasData pipe64_overcommit = Inr (20, pipe64_overcommit)"
  by (intro conjI) code_simp+

text \<open>
  Claim C4 as amended. After \<^verbatim>\<open>tpipe_getWriteBuffer\<close> for a payload size \<open>b\<close> returned a
  pointer, \<^verbatim>\<open>remainingBytes\<close> is at least \<open>b + 8\<close>, and \<^verbatim>\<open>tpipe_produce\<close> for a
  payload size \<open>n\<close> fails its assertion exactly when \<open>n + 8\<close> exceeds \<^verbatim>\<open>remainingBytes\<close>;
  otherwise it returns. So a count above \<open>b\<close> is refused only when it is above
  \<^verbatim>\<open>remainingBytes\<close> \<open>- 8\<close>, and no count up to \<open>b\<close> is refused.
\<close>

theorem produce_assertion:
  assumes "pipe_inv q" and "payload_size b" and "payload_size n"
    and "tpipe_getWriteBuffer q b = Inr (Some p, q1)"
    and "length m = length (buffer q1)"
  shows "sint b + 8 \<le> sint (remainingBytes q1) \<and>
         (if sint (remainingBytes q1) < sint n + 8
          then tpipe_produce (q1\<lparr>buffer := m\<rparr>) n = Inl AssertionFailure
          else \<exists>q2. tpipe_produce (q1\<lparr>buffer := m\<rparr>) n = Inr q2)"
proof -
  from getWriteBuffer_some [OF assms(1,2,4)]
  have i: "pipe_inv q1" and f: "sint b + 8 \<le> sint (remainingBytes q1)"
    by simp_all
  from assms(3) have n0: "0 \<le> sint n"
    by (simp add: payload_size_def)
  show ?thesis
  proof (cases "sint (remainingBytes q1) < sint n + 8")
    case True
    then have "tpipe_produce (q1\<lparr>buffer := m\<rparr>) n = Inl AssertionFailure"
      by (simp add: tpipe_produce_def sint_plus_8 [OF assms(3)])
    with True f show ?thesis by simp
  next
    case False
    then have "sint n + 8 \<le> sint (remainingBytes (q1\<lparr>buffer := m\<rparr>))" by simp
    from produce_ok [OF pipe_inv_buffer [OF i assms(5)] n0 this]
    have "\<exists>q2. tpipe_produce (q1\<lparr>buffer := m\<rparr>) n = Inr q2" by blast
    with False f show ?thesis by simp
  qed
qed

theorem produce_assertion_witness:
  "pipe_inv pipe64_empty \<and> payload_size 4 \<and> payload_size 20 \<and> payload_size 57 \<and>
   tpipe_getWriteBuffer pipe64_empty 4 = Inr (Some 4, pipe64_empty) \<and>
   sint (remainingBytes pipe64_empty) = 64 \<and>
   (\<exists>q2. tpipe_produce pipe64_empty 20 = Inr q2) \<and>
   tpipe_produce pipe64_empty 57 = Inl AssertionFailure"
proof -
  have i: "pipe_inv pipe64_empty"
    by (rule pipe_inv_pipe64_empty)
  have n: "payload_size 4" "payload_size 20" "payload_size 57"
    by (simp_all add: payload_size_def)
  have a: "tpipe_getWriteBuffer pipe64_empty 4 = Inr (Some 4, pipe64_empty)"
    by code_simp
  have r: "sint (remainingBytes pipe64_empty) = 64"
    by (simp add: pipe64_empty_def pipe64_def)
  have e: "pipe64_empty\<lparr>buffer := buffer pipe64_empty\<rparr> = pipe64_empty"
    by simp
  from produce_assertion [OF i n(1) n(2) a refl] r e
  have ok: "\<exists>q2. tpipe_produce pipe64_empty 20 = Inr q2"
    by simp
  from produce_assertion [OF i n(1) n(3) a refl] r e
  have bad: "tpipe_produce pipe64_empty 57 = Inl AssertionFailure"
    by simp
  from i n a r ok bad show ?thesis by simp
qed

section \<open>Scenario C: the retried write\<close>

lemmas run_defs =
  tpipe_init_def tpipe_write_def tpipe_getWriteBuffer_def tpipe_produce_def tpipe_consume_def
  TPIPE_SET_INT32_AT_BUFFER_def TPIPE_GET_INT32_AT_BUFFER_def memcpy_def in_arena_def
  HLP_STOP_def HLP_LOOP_def Let_def length_int32_bytes bytes_int32_int32_bytes

lemma total_pipe32_read:
  assumes "length d = 20"
  shows "tpipe_getTotalData (pipe32_read g d) = Some (Inr 0)"
proof -
  have "TPIPE_GET_INT32_AT_BUFFER (buffer (pipe32_read g d)) 24 = Inr 0"
    using assms by (simp add: pipe32_read_def run_defs)
  then show ?thesis
    unfolding tpipe_getTotalData_def
    by (subst getTotalData_loop.simps) (simp add: pipe32_read_def HLP_STOP_def)
qed

lemma total_pipe32_wrapped:
  assumes "length d = 20" and "length e = 16"
  shows "tpipe_getTotalData (pipe32_wrapped g d e) = Some (Inr 16)"
proof -
  let ?q = "pipe32_wrapped g d e"
  have g24: "TPIPE_GET_INT32_AT_BUFFER (buffer ?q) 24 = Inr (- 1)"
    using assms by (simp add: pipe32_wrapped_def run_defs)
  have g0: "TPIPE_GET_INT32_AT_BUFFER (buffer ?q) 0 = Inr 16"
    using assms by (simp add: pipe32_wrapped_def run_defs)
  have g20: "TPIPE_GET_INT32_AT_BUFFER (buffer ?q) 20 = Inr 0"
    using assms by (simp add: pipe32_wrapped_def run_defs)
  have l3: "getTotalData_loop ?q 20 16 = Some (Inr 16)"
    by (subst getTotalData_loop.simps) (simp add: g20 HLP_STOP_def)
  have l2: "getTotalData_loop ?q 0 0 = Some (Inr 16)"
    by (subst getTotalData_loop.simps) (simp add: g0 l3 HLP_STOP_def HLP_LOOP_def)
  have l1: "getTotalData_loop ?q 24 0 = Some (Inr 16)"
    by (subst getTotalData_loop.simps) (simp add: g24 l2 HLP_STOP_def HLP_LOOP_def)
  have "readHead ?q = 24"
    by (simp add: pipe32_wrapped_def)
  with l1 show ?thesis
    by (simp add: tpipe_getTotalData_def)
qed

text \<open>
  Claim C3 says that, on an arena of 32 bytes holding one frame of 20 bytes, the second
  write of 20 bytes succeeds through the wrap path once the first frame is consumed, and
  that 20 bytes are then queued. The retried write fails again, and nothing is queued:
  the wrap path needs the frame, its header and the marker slot behind it (28 bytes) in
  front of the read head, which stands at offset 24.
\<close>

theorem scenario_C_counterexample:
  "tpipe_init (Some (\<lambda>_. 170)) 32 = Inr (32, pipe32_empty (\<lambda>_. 170)) \<and>
   tpipe_write (pipe32_empty (\<lambda>_. 170)) frameA 20 = Inr (1, pipe32_one (\<lambda>_. 170) frameA) \<and>
   tpipe_write (pipe32_one (\<lambda>_. 170) frameA) frameB 20 = Inr (0, pipe32_one (\<lambda>_. 170) frameA) \<and>
   tpipe_consume (pipe32_one (\<lambda>_. 170) frameA) = Inr (pipe32_read (\<lambda>_. 170) frameA) \<and>
   \<not> (\<exists>q. tpipe_write (pipe32_read (\<lambda>_. 170) frameA) frameB 20 = Inr (1, q) \<and>
          tpipe_getTotalData q = Some (Inr 20))"
proof -
  have "tpipe_write (pipe32_read (\<lambda>_. 170) frameA) frameB 20 = Inr (0, pipe32_read (\<lambda>_. 170) frameA)"
    by code_simp
  then have "\<not> (\<exists>q. tpipe_write (pipe32_read (\<lambda>_. 170) frameA) frameB 20 = Inr (1, q) \<and>
          tpipe_getTotalData q = Some (Inr 20))"
    by simp
  moreover have "tpipe_init (Some (\<lambda>_. 170)) 32 = Inr (32, pipe32_empty (\<lambda>_. 170))"
    by code_simp
  moreover have "tpipe_write (pipe32_empty (\<lambda>_. 170)) frameA 20 = Inr (1, pipe32_one (\<lambda>_. 170) frameA)"
    by code_simp
  moreover have "tpipe_write (pipe32_one (\<lambda>_. 170) frameA) frameB 20 = Inr (0, pipe32_one (\<lambda>_. 170) frameA)"
    by code_simp
  moreover have "tpipe_consume (pipe32_one (\<lambda>_. 170) frameA) = Inr (pipe32_read (\<lambda>_. 170) frameA)"
    by code_simp
  ultimately show ?thesis by simp
qed

text \<open>
  Claim C3 as amended. From \<^verbatim>\<open>tpipe_init\<close> with 32 bytes, whatever the block holds and
  whatever the payloads are: the first write of 20 bytes succeeds; a second write of 20
  bytes fails and leaves the pipe as it was; \<^verbatim>\<open>tpipe_consume\<close> moves the read head to
  offset 24; the retried write of 20 bytes fails again and leaves the pipe as it was, and
  \<^verbatim>\<open>tpipe_getTotalData\<close> returns 0. A write of 16 bytes at that point, for which
  \<open>bytesToWrite + 8\<close> is 24, does go in through the wrap path (\<open>LOOP\<close> stored at
  offset 24, the frame at offset 0), and \<^verbatim>\<open>tpipe_getTotalData\<close> then returns 16.
\<close>

theorem scenario_C:
  assumes "length d = 20" and "length d' = 20" and "length e = 16"
  shows "tpipe_init (Some g) 32 = Inr (32, pipe32_empty g) \<and>
         tpipe_write (pipe32_empty g) d 20 = Inr (1, pipe32_one g d) \<and>
         tpipe_write (pipe32_one g d) d' 20 = Inr (0, pipe32_one g d) \<and>
         tpipe_consume (pipe32_one g d) = Inr (pipe32_read g d) \<and>
         tpipe_write (pipe32_read g d) d' 20 = Inr (0, pipe32_read g d) \<and>
         tpipe_getTotalData (pipe32_read g d) = Some (Inr 0) \<and>
         tpipe_write (pipe32_read g d) e 16 = Inr (1, pipe32_wrapped g d e) \<and>
         tpipe_getTotalData (pipe32_wrapped g d e) = Some (Inr 16)"
proof -
  have 1: "tpipe_init (Some g) 32 = Inr (32, pipe32_empty g)"
    by (simp add: pipe32_empty_def run_defs drop_map)
  have 2: "tpipe_write (pipe32_empty g) d 20 = Inr (1, pipe32_one g d)"
    using assms(1) by (simp add: pipe32_empty_def pipe32_one_def run_defs drop_map)
  have 3: "tpipe_write (pipe32_one g d) d' 20 = Inr (0, pipe32_one g d)"
    by (simp add: pipe32_one_def tpipe_write_def tpipe_getWriteBuffer_def)
  have 4: "tpipe_consume (pipe32_one g d) = Inr (pipe32_read g d)"
    using assms(1) by (simp add: pipe32_one_def pipe32_read_def run_defs)
  have 5: "tpipe_write (pipe32_read g d) d' 20 = Inr (0, pipe32_read g d)"
    by (simp add: pipe32_read_def tpipe_write_def tpipe_getWriteBuffer_def)
  have 6: "tpipe_write (pipe32_read g d) e 16 = Inr (1, pipe32_wrapped g d e)"
    using assms(1,3) by (simp add: pipe32_read_def pipe32_wrapped_def run_defs drop_map)
  from 1 2 3 4 5 6 total_pipe32_read [OF assms(1)] total_pipe32_wrapped [OF assms(1,3)]
  show ?thesis by simp
qed

theorem scenario_C_witness:
  "length frameA = 20 \<and> length frameB = 20 \<and> length (replicate 16 (7::byte)) = 16 \<and>
   tpipe_write (pipe32_read (\<lambda>_. 170) frameA) frameB 20 = Inr (0, pipe32_read (\<lambda>_. 170) frameA) \<and>
   tpipe_getTotalData (pipe32_read (\<lambda>_. 170) frameA) = Some (Inr 0) \<and>
   tpipe_write (pipe32_read (\<lambda>_. 170) frameA) (replicate 16 7) 16
     = Inr (1, pipe32_wrapped (\<lambda>_. 170) frameA (replicate 16 7)) \<and>
   tpipe_getTotalData (pipe32_wrapped (\<lambda>_. 170) frameA (replicate 16 7)) = Some (Inr 16)"
proof -
  have a: "length frameA = 20" and b: "length frameB = 20"
    by (simp_all add: frameA_def frameB_def)
  have c: "length (replicate 16 (7::byte)) = 16"
    by simp
  from scenario_C [OF a b c, of "\<lambda>_. 170"] a b c show ?thesis
    by simp
qed

section \<open>The slot at the start of the arena never holds \<open>LOOP\<close>\<close>

text \<open>
  In every reachable pipe the slot at offset 0 holds \<open>STOP\<close> or the length of a frame.
  \<^verbatim>\<open>tpipe_produce\<close> stores its closing
  marker at least one slot into the arena and the length, which is not negative, at the
  old write head; the wrap branch of \<^verbatim>\<open>tpipe_getWriteBuffer\<close> stores \<open>STOP\<close> at the
  start and \<open>LOOP\<close> at the old write head, which is not the start.
\<close>

lemma start_slot_inv_iff:
  "start_slot_inv q \<longleftrightarrow>
     (writeHead q = 0 \<or> 4 \<le> writeHead q) \<and>
     (\<exists>v. TPIPE_GET_INT32_AT_BUFFER (buffer q) 0 = Inr v \<and> 0 \<le> sint v)"
  by (auto simp add: start_slot_inv_def split: sum.splits)

lemma memcpy_get_start:
  assumes "memcpy m dst src n = Inr m'" and "4 \<le> dst"
  shows "TPIPE_GET_INT32_AT_BUFFER m' 0 = TPIPE_GET_INT32_AT_BUFFER m 0"
proof (rule get_int32_cong)
  show "length m' = length m"
    by (rule memcpy_length [OF assms(1)])
next
  fix i :: nat
  assume "int i < 0 + 4"
  then have i: "i < nat dst"
    using assms(2) by simp
  from assms(1) have "m' = take (nat dst) m @ take (nat (sint n)) src @ drop (nat dst + nat (sint n)) m"
    and "nat dst \<le> length m"
    by (auto simp add: memcpy_def in_arena_def split: if_splits)
  with i show "m' ! i = m ! i"
    by (simp add: nth_append)
qed

lemma init_start_slot:
  assumes "tpipe_init heap numBytes = Inr (r, q)"
  shows "start_slot_inv q"
  using init_pipe_inv [OF assms] by (simp add: start_slot_inv_iff HLP_STOP_def)

lemma getWriteBuffer_start_slot:
  assumes inv: "pipe_inv q" and st: "start_slot_inv q"
    and acq: "tpipe_getWriteBuffer q n = Inr (p, q')"
  shows "start_slot_inv q'"
proof (cases "q' = q")
  case True
  with st show ?thesis by simp
next
  case False
  with acq obtain m1 m2 where
    big: "\<not> sint (n + 8) \<le> sint (remainingBytes q)" and
    fits: "sint (n + 8) \<le> sint (len q)" and
    s1: "TPIPE_SET_INT32_AT_BUFFER (buffer q) 0 HLP_STOP = Inr m1" and
    s2: "TPIPE_SET_INT32_AT_BUFFER m1 (writeHead q) HLP_LOOP = Inr m2" and
    q': "q' = q\<lparr>writeHead := 0, remainingBytes := len q, buffer := m2\<rparr>"
    by (auto simp add: tpipe_getWriteBuffer_def Let_def split: if_splits sum.splits)
  from inv big fits have "writeHead q \<noteq> 0"
    by (auto simp add: pipe_inv_def)
  with st have "4 \<le> writeHead q"
    by (simp add: start_slot_inv_iff)
  then have "TPIPE_GET_INT32_AT_BUFFER m2 0 = TPIPE_GET_INT32_AT_BUFFER m1 0"
    by (intro get_set_int32_other [OF s2]) simp
  with get_set_int32_same [OF s1] show ?thesis
    by (simp add: q' start_slot_inv_iff HLP_STOP_def)
qed

lemma produce_start_slot:
  assumes inv: "pipe_inv q" and st: "start_slot_inv q" and n: "payload_size n"
    and pr: "tpipe_produce q n = Inr q'"
  shows "start_slot_inv q'"
proof -
  from n have n0: "0 \<le> sint n"
    by (simp add: payload_size_def)
  from inv have w0: "0 \<le> writeHead q"
    by (simp add: pipe_inv_def)
  from pr obtain m1 m2 where
    s1: "TPIPE_SET_INT32_AT_BUFFER (buffer q) (writeHead q + (4 + sint n)) HLP_STOP = Inr m1" and
    s2: "TPIPE_SET_INT32_AT_BUFFER m1 (writeHead q) n = Inr m2" and
    q': "q' = q\<lparr>remainingBytes := remainingBytes q - (4 + n),
                  writeHead := writeHead q + (4 + sint n), buffer := m2\<rparr>"
    by (auto simp add: tpipe_produce_def Let_def split: if_splits sum.splits)
  have g1: "TPIPE_GET_INT32_AT_BUFFER m1 0 = TPIPE_GET_INT32_AT_BUFFER (buffer q) 0"
    using n0 w0 by (intro get_set_int32_other [OF s1]) simp
  have "\<exists>v. TPIPE_GET_INT32_AT_BUFFER m2 0 = Inr v \<and> 0 \<le> sint v"
  proof (cases "writeHead q = 0")
    case True
    with get_set_int32_same [OF s2] n0 show ?thesis by simp
  next
    case False
    with st have "4 \<le> writeHead q"
      by (simp add: start_slot_inv_iff)
    then have "TPIPE_GET_INT32_AT_BUFFER m2 0 = TPIPE_GET_INT32_AT_BUFFER m1 0"
      by (intro get_set_int32_other [OF s2]) simp
    with g1 st show ?thesis
      by (simp add: start_slot_inv_iff)
  qed
  moreover have "4 \<le> writeHead q + (4 + sint n)"
    using n0 w0 by simp
  ultimately show ?thesis
    by (simp add: q' start_slot_inv_iff)
qed

lemma clear_result:
  assumes "arena_ok q"
  shows "tpipe_clear q =
           Inr (q\<lparr>writeHead := 0, readHead := 0, remainingBytes := len q,
                  buffer := replicate (length (buffer q)) 0\<rparr>)"
  using assms by (simp add: tpipe_clear_def memset_def arena_ok_def Let_def)

lemma clear_start_slot:
  assumes "pipe_inv q" and "tpipe_clear q = Inr q'"
  shows "start_slot_inv q'"
proof -
  have a: "arena_ok q"
    by (rule pipe_inv_arena_ok [OF assms(1)])
  then have "4 \<le> length (buffer q)"
    by (auto simp add: arena_ok_def)
  from get_int32_zeros [OF this] clear_result [OF a] assms(2) show ?thesis
    by (auto simp add: start_slot_inv_iff)
qed

lemma reachable_start_slot: "reachable q \<Longrightarrow> start_slot_inv q"
proof (induction rule: reachable.induct)
  case (reach_init heap numBytes r q)
  then show ?case by (simp add: init_start_slot)
next
  case (reach_hasData q x q')
  then show ?case
    by (auto simp add: tpipe_hasData_def start_slot_inv_iff Let_def split: sum.splits if_splits)
next
  case (reach_getWriteBuffer q n p q')
  then show ?case
    using getWriteBuffer_start_slot reachable_pipe_inv by blast
next
  case (reach_fill q dst src n m)
  then show ?case
    using memcpy_get_start [of "buffer q" dst src n m] by (simp add: start_slot_inv_iff)
next
  case (reach_produce q n q')
  then show ?case
    using produce_start_slot reachable_pipe_inv by blast
next
  case (reach_consume q q')
  then show ?case
    by (auto simp add: tpipe_consume_def start_slot_inv_iff split: sum.splits if_splits)
next
  case (reach_clear q q')
  then show ?case
    using clear_start_slot reachable_pipe_inv by blast
qed

lemma reachable_no_loop_at_start:
  assumes "reachable q"
  shows "TPIPE_GET_INT32_AT_BUFFER (buffer q) 0 \<noteq> Inr HLP_LOOP"
  using reachable_start_slot [OF assms] by (auto simp add: start_slot_inv_iff HLP_LOOP_def)

lemma reachable_hasData_after_loop:
  assumes "reachable q"
    and "TPIPE_GET_INT32_AT_BUFFER (buffer q) (readHead q) = Inr HLP_LOOP"
  shows "\<exists>v. tpipe_hasData q = Inr (v, q\<lparr>readHead := 0\<rparr>) \<and> 0 \<le> sint v"
  using reachable_start_slot [OF assms(1)] assms(2)
  by (auto simp add: start_slot_inv_iff tpipe_hasData_def Let_def)

section \<open>A write behind the wrap that reaches into an unread slot\<close>

text \<open>
  In its tail branch \<^verbatim>\<open>tpipe_getWriteBuffer\<close> compares the end of the new payload
  (\<^verbatim>\<open>newWriteHead\<close>) with the read head, although \<^verbatim>\<open>tpipe_produce\<close> stores a
  \<open>STOP\<close> marker in the four bytes from \<^verbatim>\<open>newWriteHead\<close> on. When the payload ends one,
  two or three bytes in front of the read head, the request is granted and the marker
  is stored over the first bytes of the slot the reader will look at next. The wrap
  branch of the same function does count the marker slot
  (\<^verbatim>\<open>q->buffer + totalByteRequirement > readHead\<close>).

  The runs below start from \<^verbatim>\<open>tpipe_init\<close> with 64 bytes and write the frames A and B.
\<close>

lemma run64_write_C_behind_B: "tpipe_write pipe64_B frameC 10 = Inr (1, pipe64_BC)"
  by code_simp

lemma run64_write_D: "tpipe_write pipe64_BC frameD 5 = Inr (1, pipe64_BCD)"
  by code_simp

lemma run64_write_C_drained: "tpipe_write pipe64_drained frameC 10 = Inr (1, pipe64_C)"
  by code_simp

lemma run64_write_E: "tpipe_write pipe64_C frameE 27 = Inr (1, pipe64_CE)"
  by code_simp

text \<open>
  Claim C2 (no write granted by \<^verbatim>\<open>tpipe_getWriteBuffer\<close> changes a byte of an unread
  frame) fails on the code. Frame A is consumed, frame C goes in through the wrap path,
  and frame B is still unread at offset 24 with its header holding 20. The write of
  frame D (5 bytes, write head 14) is granted, since its payload ends at offset 23; its
  closing marker is stored at offsets 23 to 26 and clears the header of frame B.
\<close>

theorem write_overwrites_unread_header:
  "tpipe_init (Some (\<lambda>_. 170)) 64 = Inr (64, pipe64_empty) \<and>
   tpipe_write pipe64_empty frameA 20 = Inr (1, pipe64_A) \<and>
   tpipe_write pipe64_A frameB 20 = Inr (1, pipe64_AB) \<and>
   tpipe_consume pipe64_AB = Inr pipe64_B \<and>
   tpipe_write pipe64_B frameC 10 = Inr (1, pipe64_BC) \<and>
   readHead pipe64_BC = 24 \<and>
   tpipe_getReadBuffer pipe64_BC = Inr (28, 20) \<and>
   tpipe_getWriteBuffer pipe64_BC 5 = Inr (Some 18, pipe64_BC) \<and>
   tpipe_write pipe64_BC frameD 5 = Inr (1, pipe64_BCD) \<and>
   readHead pipe64_BCD = 24 \<and>
   tpipe_getReadBuffer pipe64_BCD = Inr (28, 0) \<and>
   buffer pipe64_BC ! 24 = 20 \<and> buffer pipe64_BCD ! 24 = 0"
proof -
  have "readHead pipe64_BC = 24" "readHead pipe64_BCD = 24"
    by (simp_all add: pipe64_BC_def pipe64_BCD_def pipe64_def)
  moreover have "tpipe_getReadBuffer pipe64_BC = Inr (28, 20)"
    by code_simp
  moreover have "tpipe_getWriteBuffer pipe64_BC 5 = Inr (Some 18, pipe64_BC)"
    by code_simp
  moreover have "tpipe_getReadBuffer pipe64_BCD = Inr (28, 0)"
    by code_simp
  moreover have "buffer pipe64_BC ! 24 = 20" "buffer pipe64_BCD ! 24 = 0"
    by code_simp+
  ultimately show ?thesis
    using run64_init run64_write_A run64_write_B run64_consume_A
      run64_write_C_behind_B run64_write_D
    by simp
qed

text \<open>
  Claim C1 (the frames written come out in order and unchanged) fails on the same run.
  The writes of A, B, C and D all return 1. The reader gets frame A (length 20, its
  payload at offset 4) and consumes it; after the writes of C and D it finds 0 at its
  read head, so \<^verbatim>\<open>tpipe_hasData\<close> and \<^verbatim>\<open>tpipe_getTotalData\<close> return 0 and the frames
  B, C and D never come out.
\<close>

theorem written_frames_never_read:
  "tpipe_init (Some (\<lambda>_. 170)) 64 = Inr (64, pipe64_empty) \<and>
   tpipe_write pipe64_empty frameA 20 = Inr (1, pipe64_A) \<and>
   tpipe_write pipe64_A frameB 20 = Inr (1, pipe64_AB) \<and>
   tpipe_hasData pipe64_AB = Inr (20, pipe64_AB) \<and>
   tpipe_getReadBuffer pipe64_AB = Inr (4, 20) \<and>
   take 20 (drop 4 (buffer pipe64_AB)) = frameA \<and>
   tpipe_consume pipe64_AB = Inr pipe64_B \<and>
   tpipe_write pipe64_B frameC 10 = Inr (1, pipe64_BC) \<and>
   tpipe_write pipe64_BC frameD 5 = Inr (1, pipe64_BCD) \<and>
   tpipe_hasData pipe64_BCD = Inr (0, pipe64_BCD) \<and>
   tpipe_getTotalData pipe64_BCD = Some (Inr 0)"
proof -
  have "tpipe_hasData pipe64_AB = Inr (20, pipe64_AB)"
    by code_simp
  moreover have "tpipe_getReadBuffer pipe64_AB = Inr (4, 20)"
    by code_simp
  moreover have "take 20 (drop 4 (buffer pipe64_AB)) = frameA"
    by code_simp
  moreover have "tpipe_hasData pipe64_BCD = Inr (0, pipe64_BCD)"
    by code_simp
  moreover have "tpipe_getTotalData pipe64_BCD = Some (Inr 0)"
    by code_simp
  ultimately show ?thesis
    using run64_init run64_write_A run64_write_B run64_consume_A
      run64_write_C_behind_B run64_write_D
    by simp
qed

text \<open>
  Claim C10 (no \<open>LOOP\<close> marker at the start of the arena, so \<^verbatim>\<open>tpipe_hasData\<close> never
  returns a negative value) fails in its conclusion, by the same defect; its premise
  holds (\<open>reachable_no_loop_at_start\<close>), and so does the conclusion for a call that
  finds \<open>LOOP\<close> at the read head (\<open>reachable_hasData_after_loop\<close>). Frames A and B
  are consumed, so the read head stands at offset 48; frame C goes in through the wrap
  path, which stores \<open>LOOP\<close> at offset 48. The write of frame E (27 bytes, write head
  14) is granted, since its payload ends at offset 45; its closing marker is stored at
  offsets 45 to 48 and clears the lowest byte of the \<open>LOOP\<close> marker. The slot at the
  read head now holds -256, which is not \<open>LOOP\<close>, and \<^verbatim>\<open>tpipe_hasData\<close> returns it.
\<close>

theorem hasData_returns_negative:
  "tpipe_init (Some (\<lambda>_. 170)) 64 = Inr (64, pipe64_empty) \<and>
   tpipe_write pipe64_empty frameA 20 = Inr (1, pipe64_A) \<and>
   tpipe_write pipe64_A frameB 20 = Inr (1, pipe64_AB) \<and>
   tpipe_consume pipe64_AB = Inr pipe64_B \<and>
   tpipe_consume pipe64_B = Inr pipe64_drained \<and>
   tpipe_write pipe64_drained frameC 10 = Inr (1, pipe64_C) \<and>
   tpipe_getReadBuffer pipe64_C = Inr (52, HLP_LOOP) \<and>
   tpipe_write pipe64_C frameE 27 = Inr (1, pipe64_CE) \<and>
   tpipe_hasData pipe64_CE = Inr (- 256, pipe64_CE) \<and>
   sint (- 256 :: int32) = - 256"
proof -
  have "tpipe_getReadBuffer pipe64_C = Inr (52, HLP_LOOP)"
    by code_simp
  moreover have "tpipe_hasData pipe64_CE = Inr (- 256, pipe64_CE)"
    by code_simp
  moreover have "sint (- 256 :: int32) = - 256"
    by simp
  ultimately show ?thesis
    using run64_init run64_write_A run64_write_B run64_consume_A run64_consume_B
      run64_write_C_drained run64_write_E
    by simp
qed

end
